theory Spec2Isabelle
  imports Main
begin

section \<open>The Python primitives that plotter.py calls\<close>

text \<open>
  The script \<^verbatim>\<open>src/simulation_results/plotter.py\<close> is one straight-line block: it reads
  all lines of a log, finds the header line of the FFT section with \<^verbatim>\<open>list.index\<close>, finds
  the next blank line, cuts every line of the section with \<^verbatim>\<open>str.index\<close> and slices,
  converts the cut pieces with \<^verbatim>\<open>int\<close>, and hands three lists to pyplot.

  A Python \<^verbatim>\<open>str\<close> is modelled by \<^typ>\<open>string\<close>; one \<^typ>\<open>char\<close> stands for one code point
  below 256. Every exception the script can run into is a value of \<open>error\<close>. The three
  built-ins that raise \<^verbatim>\<open>ValueError\<close> are told apart by the place that raised it.
\<close>

datatype origin = ListIndex | StrIndex | IntLiteral

datatype error = FileNotFoundError | ValueError origin

text \<open>\<^verbatim>\<open>xs.index(x)\<close>: the position of the first element equal to \<open>x\<close>.\<close>

primrec list_index :: "'a list \<Rightarrow> 'a \<Rightarrow> error + nat" where
  "list_index [] x = Inl (ValueError ListIndex)"
| "list_index (y # ys) x =
     (if y = x then Inr 0
      else (case list_index ys x of Inl e \<Rightarrow> Inl e | Inr i \<Rightarrow> Inr (Suc i)))"

text \<open>\<^verbatim>\<open>xs[a:b]\<close> for indices that are not negative: Python clips both ends.\<close>

definition slice :: "'a list \<Rightarrow> nat \<Rightarrow> nat \<Rightarrow> 'a list" where
  "slice xs a b = drop a (take b xs)"

fun startswith :: "string \<Rightarrow> string \<Rightarrow> bool" where
  "startswith s [] = True"
| "startswith [] (p # ps) = False"
| "startswith (c # cs) (p # ps) = (c = p \<and> startswith cs ps)"

text \<open>\<^verbatim>\<open>s.index(sub)\<close>: the lowest position at which \<open>sub\<close> occurs in \<open>s\<close>.\<close>

fun str_index :: "string \<Rightarrow> string \<Rightarrow> error + nat" where
  "str_index [] sub = (if sub = [] then Inr 0 else Inl (ValueError StrIndex))"
| "str_index (c # cs) sub =
     (if startswith (c # cs) sub then Inr 0
      else (case str_index cs sub of Inl e \<Rightarrow> Inl e | Inr i \<Rightarrow> Inr (Suc i)))"

subsection \<open>The conversion \<^verbatim>\<open>int(text, base)\<close>\<close>

text \<open>
  CPython skips white space on both sides, reads one optional sign, for base 16 one optional
  prefix \<^verbatim>\<open>0x\<close> or \<^verbatim>\<open>0X\<close> (an underscore may follow it), then digits, where single
  underscores may stand between digits. White space is tab, line feed, vertical tab, form
  feed, carriage return and blank, and of the code points from 128 to 255 the two that
  Unicode counts as space. The digits are weighted by position, and a minus sign negates
  the sum; no width is involved.

  The interpreter refuses a decimal literal with too many digits: with the setting
  \<^verbatim>\<open>max_str_digits\<close> (4300 unless changed, 0 for no limit) and more than 640 digits, more
  digits than the setting allows raise \<^verbatim>\<open>ValueError\<close> as well. Bases that are a power
  of two are exempt. The setting is the first argument of \<open>py_int\<close> and of everything that
  calls it.
\<close>

definition isspace :: "char \<Rightarrow> bool" where
  "isspace c = (c \<in> set [CHR 0x09, CHR 0x0A, CHR 0x0B, CHR 0x0C, CHR 0x0D, CHR '' '',
                            CHR 0x85, CHR 0xA0])"

definition digit_value :: "char \<Rightarrow> nat" where
  "digit_value c =
     (case list_index ''0123456789abcdefghijklmnopqrstuvwxyz'' c of
        Inr k \<Rightarrow> k
      | Inl _ \<Rightarrow> (case list_index ''ABCDEFGHIJKLMNOPQRSTUVWXYZ'' c of
                  Inr k \<Rightarrow> 10 + k
                | Inl _ \<Rightarrow> 37))"

text \<open>
  The digit loop: \<open>prev\<close> is the character read last. It stops at the first character
  that is neither a digit of the base nor an underscore and gives the digit values read
  and the rest of the text; two underscores in a row or one at the end are refused.
\<close>

fun scan :: "nat \<Rightarrow> char \<Rightarrow> string \<Rightarrow> (nat list \<times> string) option" where
  "scan base prev [] = (if prev = CHR ''_'' then None else Some ([], []))"
| "scan base prev (c # cs) =
     (if c = CHR ''_'' then (if prev = CHR ''_'' then None else scan base c cs)
      else if digit_value c < base then
        (case scan base c cs of None \<Rightarrow> None | Some (ds, rest) \<Rightarrow> Some (digit_value c # ds, rest))
      else if prev = CHR ''_'' then None
      else Some ([], c # cs))"

definition skip_sign :: "string \<Rightarrow> string" where
  "skip_sign s = (if startswith s ''+'' \<or> startswith s ''-'' then tl s else s)"

definition skip_prefix :: "nat \<Rightarrow> string \<Rightarrow> string" where
  "skip_prefix base s =
     (if base = 16 \<and> (startswith s ''0x'' \<or> startswith s ''0X'')
      then (let r = drop 2 s in if startswith r ''_'' then tl r else r)
      else s)"

definition digits_part :: "nat \<Rightarrow> string \<Rightarrow> nat list option" where
  "digits_part base s =
     (if startswith s ''_'' then None
      else (case scan base (CHR 0x00) s of
              None \<Rightarrow> None
            | Some (ds, rest) \<Rightarrow>
                if ds = [] \<or> \<not> list_all isspace rest then None else Some ds))"

text \<open>The sign (\<open>True\<close> for minus) and the digit values of a literal, if it is one.\<close>

definition int_literal :: "nat \<Rightarrow> string \<Rightarrow> (bool \<times> nat list) option" where
  "int_literal base s =
     (let s1 = dropWhile isspace s in
      case digits_part base (skip_prefix base (skip_sign s1)) of
        None \<Rightarrow> None
      | Some ds \<Rightarrow> Some (startswith s1 ''-'', ds))"

definition magnitude :: "nat \<Rightarrow> nat list \<Rightarrow> int" where
  "magnitude base ds = foldl (\<lambda>a d. a * int base + int d) 0 ds"

definition py_int :: "nat \<Rightarrow> string \<Rightarrow> nat \<Rightarrow> error + int" where
  "py_int max_str_digits s base =
     (case int_literal base s of
        None \<Rightarrow> Inl (ValueError IntLiteral)
      | Some (neg, ds) \<Rightarrow>
          if base \<notin> set [2, 4, 8, 16, 32] \<and> 640 < length ds
             \<and> 0 < max_str_digits \<and> max_str_digits < length ds
          then Inl (ValueError IntLiteral)
          else Inr (if neg then - magnitude base ds else magnitude base ds))"

section \<open>The script\<close>

text \<open>
  What the run leaves behind: the lines written by \<^verbatim>\<open>print\<close>, the three lists the loop
  appends to, and the calls made to \<^verbatim>\<open>matplotlib.pyplot\<close>, each in the order of the run.
  Of a printed line the argument of \<^verbatim>\<open>print\<close> is kept. What pyplot draws for the lists it
  is given is not part of the model.
\<close>

datatype plt_call = Plot "int list" "int list" string | Legend | Show

record state =
  stdout :: "string list"
  bins :: "int list"
  real :: "int list"
  imag :: "int list"
  pyplot :: "plt_call list"

definition initial :: state where
  "initial = \<lparr>stdout = [], bins = [], real = [], imag = [], pyplot = []\<rparr>"

definition HEADER :: string where
  "HEADER = ''Capturing FFT output (frequency domain):\<newline>''"

text \<open>
  Lines 16-17, 20-21 and 24-25 are one pattern: find \<open>key\<close> from the start of the line,
  step over it (\<open>width\<close> is the literal 4 or 5 of the source), find \<open>close\<close> in the rest,
  and cut the text between the two.
\<close>

definition delimited :: "string \<Rightarrow> nat \<Rightarrow> string \<Rightarrow> string \<Rightarrow> error + string" where
  "delimited key width close l =
     (case str_index l key of
        Inl e \<Rightarrow> Inl e
      | Inr i \<Rightarrow>
          (let start = i + width in
           case str_index (drop start l) close of
             Inl e \<Rightarrow> Inl e
           | Inr j \<Rightarrow> (let stop = start + j in Inr (slice l start stop))))"

definition bin_field :: "nat \<Rightarrow> string \<Rightarrow> error + int" where
  "bin_field lim l =
     (case delimited ''Bin['' 4 '']'' l of Inl e \<Rightarrow> Inl e | Inr t \<Rightarrow> py_int lim t 10)"

definition real_field :: "nat \<Rightarrow> string \<Rightarrow> error + int" where
  "real_field lim l =
     (case delimited ''Real='' 5 '' '' l of Inl e \<Rightarrow> Inl e | Inr t \<Rightarrow> py_int lim t 16)"

definition imag_field :: "nat \<Rightarrow> string \<Rightarrow> error + int" where
  "imag_field lim l =
     (case delimited ''Imag='' 5 '' '' l of Inl e \<Rightarrow> Inl e | Inr t \<Rightarrow> py_int lim t 16)"

text \<open>
  One pass of the loop body, lines 15-26. An exception leaves the state as it was when it
  was raised: the line is already printed, and the lists hold what was appended before.
\<close>

definition loop_body :: "nat \<Rightarrow> string \<Rightarrow> state \<Rightarrow> state \<times> error option" where
  "loop_body lim l s0 =
     (let s1 = s0\<lparr>stdout := stdout s0 @ [l]\<rparr> in
      case bin_field lim l of
        Inl e \<Rightarrow> (s1, Some e)
      | Inr b \<Rightarrow>
          (let s2 = s1\<lparr>bins := bins s1 @ [b]\<rparr> in
           case real_field lim l of
             Inl e \<Rightarrow> (s2, Some e)
           | Inr r \<Rightarrow>
               (let s3 = s2\<lparr>real := real s2 @ [r]\<rparr> in
                case imag_field lim l of
                  Inl e \<Rightarrow> (s3, Some e)
                | Inr i \<Rightarrow> (s3\<lparr>imag := imag s3 @ [i]\<rparr>, None))))"

fun for_loop :: "nat \<Rightarrow> string list \<Rightarrow> state \<Rightarrow> state \<times> error option" where
  "for_loop lim [] s = (s, None)"
| "for_loop lim (l # ls) s =
     (case loop_body lim l s of
        (s', Some e) \<Rightarrow> (s', Some e)
      | (s', None) \<Rightarrow> for_loop lim ls s')"

text \<open>Lines 8-9: the section between the header and the next blank line.\<close>

definition fft_block :: "string list \<Rightarrow> error + string list" where
  "fft_block lines =
     (case list_index lines HEADER of
        Inl e \<Rightarrow> Inl e
      | Inr h \<Rightarrow>
          (let start = h + 1 in
           case list_index (drop start lines) ''\<newline>'' of
             Inl e \<Rightarrow> Inl e
           | Inr k \<Rightarrow> (let stop = start + k in Inr (slice lines start stop))))"

text \<open>Lines 8-31, from the list \<open>lines\<close> that \<^verbatim>\<open>readlines\<close> gave.\<close>

definition script :: "nat \<Rightarrow> string list \<Rightarrow> state \<times> error option" where
  "script lim lines =
     (case fft_block lines of
        Inl e \<Rightarrow> (initial, Some e)
      | Inr block \<Rightarrow>
          (case for_loop lim block initial of
             (s, Some e) \<Rightarrow> (s, Some e)
           | (s, None) \<Rightarrow>
               (s\<lparr>pyplot := [Plot (bins s) (real s) ''Real'',
                             Plot (bins s) (imag s) ''Imag'', Legend, Show]\<rparr>, None)))"

text \<open>
  The file is opened in text mode with the default \<^verbatim>\<open>newline=None\<close>: on reading, a
  carriage return followed by a line feed, and a carriage return alone, each become one
  line feed.
\<close>

fun universal_newlines :: "string \<Rightarrow> string" where
  "universal_newlines [] = []"
| "universal_newlines [c] = (if c = CHR 0x0D then [CHR 0x0A] else [c])"
| "universal_newlines (c # d # cs) =
     (if c = CHR 0x0D then
        (if d = CHR 0x0A then CHR 0x0A # universal_newlines cs
         else CHR 0x0A # universal_newlines (d # cs))
      else c # universal_newlines (d # cs))"

text \<open>The translated text cut after every line feed, the line feed kept with its line.\<close>

fun cut_lines :: "string \<Rightarrow> string list" where
  "cut_lines [] = []"
| "cut_lines (c # cs) =
     (if c = CHR 0x0A then [c] # cut_lines cs
      else (case cut_lines cs of [] \<Rightarrow> [[c]] | l # ls \<Rightarrow> (c # l) # ls))"

text \<open>\<^verbatim>\<open>f.readlines()\<close> on the decoded text of the file.\<close>

definition readlines :: "string \<Rightarrow> string list" where
  "readlines text = cut_lines (universal_newlines text)"

text \<open>
  Lines 6-7 and the rest: \<open>file\<close> is the decoded text of \<^verbatim>\<open>stdout.txt\<close>, or \<open>None\<close> when
  there is no such file.
\<close>

definition main :: "nat \<Rightarrow> string option \<Rightarrow> state \<times> error option" where
  "main lim file =
     (case file of
        None \<Rightarrow> (initial, Some FileNotFoundError)
      | Some text \<Rightarrow> script lim (readlines text))"

section \<open>The vocabulary of the specification\<close>

definition NotFoundError :: "error \<Rightarrow> bool" where
  "NotFoundError e = (e = ValueError ListIndex)"

definition FormatError :: "error \<Rightarrow> bool" where
  "FormatError e = (e = ValueError StrIndex \<or> e = ValueError IntLiteral)"

text \<open>
  The line parser of the specification: the three values of lines 16-26, without the
  appends in between.
\<close>

definition parse_line :: "nat \<Rightarrow> string \<Rightarrow> error + (int \<times> int \<times> int)" where
  "parse_line lim l =
     (case bin_field lim l of
        Inl e \<Rightarrow> Inl e
      | Inr b \<Rightarrow>
          (case real_field lim l of
             Inl e \<Rightarrow> Inl e
           | Inr r \<Rightarrow> (case imag_field lim l of Inl e \<Rightarrow> Inl e | Inr i \<Rightarrow> Inr (b, r, i))))"

text \<open>
  A data line has the three keys, each with its closing character after it, and a
  numeric token in between that \<^verbatim>\<open>int\<close> accepts in the base of the field.
\<close>

definition numeric_token :: "nat \<Rightarrow> nat \<Rightarrow> error + string \<Rightarrow> bool" where
  "numeric_token lim base t =
     (case t of
        Inl _ \<Rightarrow> False
      | Inr text \<Rightarrow> (case py_int lim text base of Inl _ \<Rightarrow> False | Inr _ \<Rightarrow> True))"

definition data_line :: "nat \<Rightarrow> string \<Rightarrow> bool" where
  "data_line lim l =
     (numeric_token lim 10 (delimited ''Bin['' 4 '']'' l)
      \<and> numeric_token lim 16 (delimited ''Real='' 5 '' '' l)
      \<and> numeric_token lim 16 (delimited ''Imag='' 5 '' '' l))"

definition lacks_token :: "string \<Rightarrow> bool" where
  "lacks_token l =
     (isl (delimited ''Bin['' 4 '']'' l)
      \<or> isl (delimited ''Real='' 5 '' '' l)
      \<or> isl (delimited ''Imag='' 5 '' '' l))"

text \<open>The chart of lines 28-31 for three given lists.\<close>

definition chart :: "int list \<Rightarrow> int list \<Rightarrow> int list \<Rightarrow> plt_call list" where
  "chart bs rs is = [Plot bs rs ''Real'', Plot bs is ''Imag'', Legend, Show]"

text \<open>
  The round trip of the specification writes a sample back as text. The script has no
  code for that, so this definition follows the words of the specification: \<open>bin\<close> in
  decimal, \<open>real\<close> and \<open>imag\<close> in hexadecimal, each between the key and the closing
  character that the line parser looks for. The numbers are written as Python writes
  them, \<^verbatim>\<open>str(bin)\<close>, \<^verbatim>\<open>hex(real)\<close> and \<^verbatim>\<open>hex(imag)\<close>; \<open>to_digits\<close> is used with the
  bases 10 and 16 only.
\<close>

definition digit_char :: "nat \<Rightarrow> char" where
  "digit_char d = ''0123456789abcdef'' ! d"

function to_digits :: "nat \<Rightarrow> nat \<Rightarrow> string" where
  "to_digits base n =
     (if base < 2 \<or> n < base then [digit_char n]
      else to_digits base (n div base) @ [digit_char (n mod base)])"
  by pat_completeness auto
termination
  by (relation "measure snd") auto

definition py_str :: "int \<Rightarrow> string" where
  "py_str n = (if n < 0 then ''-'' @ to_digits 10 (nat (- n)) else to_digits 10 (nat n))"

definition py_hex :: "int \<Rightarrow> string" where
  "py_hex n = (if n < 0 then ''-0x'' @ to_digits 16 (nat (- n)) else ''0x'' @ to_digits 16 (nat n))"

definition serialize :: "int \<times> int \<times> int \<Rightarrow> string" where
  "serialize sample =
     (case sample of (b, r, i) \<Rightarrow>
        ''Bin['' @ py_str b @ ''] Real='' @ py_hex r @ '' Imag='' @ py_hex i @ '' '')"

text \<open>The characters that \<open>to_digits\<close> writes.\<close>

definition plain_digit :: "char \<Rightarrow> bool" where
  "plain_digit c = (c \<in> set ''0123456789abcdef'')"

section \<open>Locating the FFT section\<close>

lemma list_index_absent: "x \<notin> set xs \<Longrightarrow> list_index xs x = Inl (ValueError ListIndex)"
  by (induction xs) auto

lemma list_index_first: "x \<notin> set pre \<Longrightarrow> list_index (pre @ x # post) x = Inr (length pre)"
  by (induction pre) auto

lemma list_index_Inl: "list_index xs x = Inl e \<Longrightarrow> e = ValueError ListIndex \<and> x \<notin> set xs"
  by (induction xs) (auto split: if_splits sum.splits)

lemma list_index_Inr:
  "list_index xs x = Inr k \<Longrightarrow> k < length xs \<and> xs ! k = x \<and> x \<notin> set (take k xs)"
proof (induction xs arbitrary: k)
  case Nil
  then show ?case by simp
next
  case (Cons y ys)
  show ?case
  proof (cases "y = x")
    case True
    with Cons.prems show ?thesis by simp
  next
    case False
    with Cons.prems obtain j where j: "list_index ys x = Inr j" "k = Suc j"
      by (auto split: sum.splits)
    from Cons.IH [OF j(1)] False j(2) show ?thesis by simp
  qed
qed

lemma list_index_split:
  assumes "list_index xs x = Inr k"
  shows "xs = take k xs @ x # drop (Suc k) xs \<and> x \<notin> set (take k xs)"
proof -
  from list_index_Inr [OF assms] have k: "k < length xs" "xs ! k = x" "x \<notin> set (take k xs)"
    by simp_all
  from id_take_nth_drop [OF k(1)] k(2) have "xs = take k xs @ x # drop (Suc k) xs" by simp
  with k(3) show ?thesis by simp
qed

lemma slice_middle: "slice (pre @ x # mid @ rest) (length pre + 1) (length pre + 1 + length mid) = mid"
  by (simp add: slice_def)

lemma fft_block_found:
  assumes "HEADER \<notin> set pre" and "''\<newline>'' \<notin> set block"
  shows "fft_block (pre @ HEADER # block @ ''\<newline>'' # post) = Inr block"
proof -
  have h: "list_index (pre @ HEADER # block @ ''\<newline>'' # post) HEADER = Inr (length pre)"
    using assms(1) by (rule list_index_first)
  have b: "list_index (block @ ''\<newline>'' # post) ''\<newline>'' = Inr (length block)"
    using assms(2) by (rule list_index_first)
  show ?thesis
    unfolding fft_block_def h using b slice_middle [of pre HEADER block "''\<newline>'' # post"]
    by (simp add: Let_def)
qed

lemma fft_block_no_header:
  "HEADER \<notin> set lines \<Longrightarrow> fft_block lines = Inl (ValueError ListIndex)"
  by (simp add: fft_block_def list_index_absent)

lemma fft_block_no_blank:
  assumes "HEADER \<notin> set pre" and "''\<newline>'' \<notin> set rest"
  shows "fft_block (pre @ HEADER # rest) = Inl (ValueError ListIndex)"
  using assms by (simp add: fft_block_def list_index_first list_index_absent Let_def)

lemma fft_block_Inr:
  assumes "fft_block lines = Inr block"
  shows "\<exists>pre post. lines = pre @ HEADER # block @ ''\<newline>'' # post
           \<and> HEADER \<notin> set pre \<and> ''\<newline>'' \<notin> set block"
proof -
  from assms obtain h where h: "list_index lines HEADER = Inr h"
    by (auto simp: fft_block_def split: sum.splits)
  with assms obtain k where k: "list_index (drop (Suc h) lines) ''\<newline>'' = Inr k"
    and blk: "block = slice lines (Suc h) (Suc h + k)"
    by (auto simp: fft_block_def Let_def split: sum.splits)
  let ?rest = "drop (Suc h) lines"
  from list_index_split [OF h] have l1: "lines = take h lines @ HEADER # ?rest"
    and n1: "HEADER \<notin> set (take h lines)" by simp_all
  from list_index_split [OF k] have l2: "?rest = take k ?rest @ ''\<newline>'' # drop (Suc k) ?rest"
    and n2: "''\<newline>'' \<notin> set (take k ?rest)" by simp_all
  have "block = take k ?rest"
    unfolding blk slice_def by (simp add: take_drop add.commute)
  with l1 l2 n1 n2 show ?thesis by metis
qed

lemma fft_block_Inl: "fft_block lines = Inl e \<Longrightarrow> e = ValueError ListIndex"
  by (auto simp: fft_block_def Let_def split: sum.splits dest: list_index_Inl)

section \<open>The loop over the section\<close>

lemma str_index_Inl: "str_index s sub = Inl e \<Longrightarrow> e = ValueError StrIndex"
  by (induction s) (auto split: if_splits sum.splits)

lemma py_int_Inl: "py_int lim t base = Inl e \<Longrightarrow> e = ValueError IntLiteral"
  by (auto simp: py_int_def split: option.splits if_splits prod.splits)

lemma delimited_Inl: "delimited key w close l = Inl e \<Longrightarrow> e = ValueError StrIndex"
  by (auto simp: delimited_def Let_def split: sum.splits dest: str_index_Inl)

lemma parse_line_Inl:
  assumes "parse_line lim l = Inl e"
  shows "FormatError e"
  using assms
  by (auto simp: parse_line_def bin_field_def real_field_def imag_field_def FormatError_def
           split: sum.splits dest: delimited_Inl py_int_Inl)

lemma data_line_iff: "data_line lim l \<longleftrightarrow> (\<exists>b r i. parse_line lim l = Inr (b, r, i))"
  by (auto simp: data_line_def numeric_token_def parse_line_def bin_field_def real_field_def
                 imag_field_def split: sum.splits)

lemma not_data_line: "\<not> data_line lim l \<Longrightarrow> \<exists>e. parse_line lim l = Inl e"
  by (cases "parse_line lim l") (auto simp: data_line_iff)

lemma lacks_token_not_data_line: "lacks_token l \<Longrightarrow> \<not> data_line lim l"
  by (auto simp: lacks_token_def data_line_def numeric_token_def isl_def)

lemma blank_lacks_token: "lacks_token ''\<newline>''"
  by (simp add: lacks_token_def delimited_def)

lemma data_line_not_blank: "data_line lim l \<Longrightarrow> l \<noteq> ''\<newline>''"
  using blank_lacks_token lacks_token_not_data_line by blast

lemma loop_body_ok:
  assumes "parse_line lim l = Inr (b, r, i)"
  shows "loop_body lim l s =
           (s\<lparr>stdout := stdout s @ [l], bins := bins s @ [b],
              real := real s @ [r], imag := imag s @ [i]\<rparr>, None)"
  using assms by (auto simp: parse_line_def loop_body_def Let_def split: sum.splits)

lemma loop_body_fail:
  assumes "parse_line lim l = Inl e"
  shows "\<exists>s'. loop_body lim l s = (s', Some e) \<and> stdout s' = stdout s @ [l]
           \<and> pyplot s' = pyplot s"
  using assms by (auto simp: parse_line_def loop_body_def Let_def split: sum.splits)

lemma for_loop_ok:
  assumes "map (parse_line lim) ls = map Inr samples"
  shows "for_loop lim ls s =
           (s\<lparr>stdout := stdout s @ ls, bins := bins s @ map fst samples,
              real := real s @ map (fst \<circ> snd) samples,
              imag := imag s @ map (snd \<circ> snd) samples\<rparr>, None)"
  using assms
proof (induction ls arbitrary: s samples)
  case Nil
  then show ?case by simp
next
  case (Cons l ls)
  then obtain x xs where xs: "samples = x # xs" by (cases samples) auto
  obtain b r i where x: "x = (b, r, i)" by (cases x) auto
  from Cons.prems xs x have l: "parse_line lim l = Inr (b, r, i)"
    and rest: "map (parse_line lim) ls = map Inr xs" by simp_all
  show ?case
    by (simp add: loop_body_ok [OF l] Cons.IH [OF rest] xs x)
qed

lemma for_loop_fail:
  assumes "\<forall>l\<in>set good. data_line lim l" and "parse_line lim bad = Inl e"
  shows "\<exists>s'. for_loop lim (good @ bad # rest) s = (s', Some e)
           \<and> stdout s' = stdout s @ good @ [bad] \<and> pyplot s' = pyplot s"
  using assms(1)
proof (induction good arbitrary: s)
  case Nil
  from loop_body_fail [OF assms(2), of s] show ?case by auto
next
  case (Cons l ls)
  then obtain b r i where l: "parse_line lim l = Inr (b, r, i)"
    by (auto simp: data_line_iff)
  let ?s = "s\<lparr>stdout := stdout s @ [l], bins := bins s @ [b],
              real := real s @ [r], imag := imag s @ [i]\<rparr>"
  from Cons have "\<forall>l\<in>set ls. data_line lim l" by simp
  from Cons.IH [OF this, of ?s] obtain s' where
    "for_loop lim (ls @ bad # rest) ?s = (s', Some e)"
    "stdout s' = stdout ?s @ ls @ [bad]" "pyplot s' = pyplot ?s" by blast
  then show ?case
    by (simp add: loop_body_ok [OF l])
qed

lemma data_lines_samples:
  "(\<forall>l\<in>set ls. data_line lim l) \<longleftrightarrow> (\<exists>samples. map (parse_line lim) ls = map Inr samples)"
proof (induction ls)
  case Nil
  then show ?case by simp
next
  case (Cons l ls)
  show ?case
  proof
    assume a: "\<forall>x\<in>set (l # ls). data_line lim x"
    then obtain x where x: "parse_line lim l = Inr x" by (auto simp: data_line_iff)
    from a Cons obtain xs where "map (parse_line lim) ls = map Inr xs" by auto
    with x have "map (parse_line lim) (l # ls) = map Inr (x # xs)" by simp
    then show "\<exists>samples. map (parse_line lim) (l # ls) = map Inr samples" ..
  next
    assume "\<exists>samples. map (parse_line lim) (l # ls) = map Inr samples"
    then obtain samples where s: "map (parse_line lim) (l # ls) = map Inr samples" ..
    then obtain x xs where "samples = x # xs" by (cases samples) auto
    with s have "parse_line lim l = Inr x" "map (parse_line lim) ls = map Inr xs" by simp_all
    with Cons show "\<forall>x\<in>set (l # ls). data_line lim x"
      by (cases x) (auto simp: data_line_iff)
  qed
qed

lemma first_bad_line:
  assumes "j < length block" and "\<not> P (block ! j)"
  shows "\<exists>k good bad rest. block = good @ bad # rest \<and> k = length good \<and> k \<le> j
           \<and> (\<forall>l\<in>set good. P l) \<and> \<not> P bad \<and> ((\<forall>i<j. P (block ! i)) \<longrightarrow> k = j)"
proof -
  let ?good = "takeWhile P block"
  let ?tail = "dropWhile P block"
  have kj: "length ?good \<le> j"
  proof (rule ccontr)
    assume "\<not> length ?good \<le> j"
    then have "j < length ?good" by simp
    then have "P (block ! j)"
      by (metis nth_mem set_takeWhileD takeWhile_nth)
    with assms(2) show False ..
  qed
  with assms(1) have "?tail \<noteq> []"
    by (metis dropWhile_eq_Nil_conv length_takeWhile_le nth_mem assms(2))
  then obtain bad rest where t: "?tail = bad # rest" by (cases ?tail) auto
  then have nb: "\<not> P bad" by (metis hd_dropWhile list.sel(1) list.distinct(1))
  have split: "block = ?good @ bad # rest" using t by (metis takeWhile_dropWhile_id)
  have "(\<forall>i<j. P (block ! i)) \<longrightarrow> length ?good = j"
  proof
    assume "\<forall>i<j. P (block ! i)"
    then have "j \<le> length ?good"
      using assms(1) by (intro length_takeWhile_less_P_nth) auto
    with kj show "length ?good = j" by simp
  qed
  with split kj nb show ?thesis
    by (metis set_takeWhileD)
qed

section \<open>The whole run\<close>

lemma for_loop_None:
  assumes "for_loop lim ls s = (s', None)"
  shows "\<exists>samples. map (parse_line lim) ls = map Inr samples"
proof (rule ccontr)
  assume "\<not> ?thesis"
  then have "\<not> (\<forall>l\<in>set ls. data_line lim l)" by (simp add: data_lines_samples)
  then obtain j where j: "j < length ls" "\<not> data_line lim (ls ! j)"
    by (auto simp: in_set_conv_nth)
  from first_bad_line [of j ls "data_line lim", OF j] obtain good bad rest where
    split: "ls = good @ bad # rest" and good: "\<forall>l\<in>set good. data_line lim l"
    and bad: "\<not> data_line lim bad" by blast
  from not_data_line [OF bad] obtain e where "parse_line lim bad = Inl e" ..
  from for_loop_fail [OF good this, of rest s] assms split show False by auto
qed

lemma script_ok:
  assumes "fft_block lines = Inr block" and "map (parse_line lim) block = map Inr samples"
  shows "script lim lines =
           (\<lparr>stdout = block, bins = map fst samples, real = map (fst \<circ> snd) samples,
             imag = map (snd \<circ> snd) samples,
             pyplot = chart (map fst samples) (map (fst \<circ> snd) samples)
                        (map (snd \<circ> snd) samples)\<rparr>, None)"
  by (simp add: script_def assms(1) for_loop_ok [OF assms(2)] initial_def chart_def)

lemma script_fail:
  assumes "fft_block lines = Inr (good @ bad # rest)"
    and "\<forall>l\<in>set good. data_line lim l" and "parse_line lim bad = Inl e"
  shows "\<exists>s. script lim lines = (s, Some e) \<and> stdout s = good @ [bad] \<and> pyplot s = []"
proof -
  from for_loop_fail [OF assms(2,3), of rest initial] obtain s' where
    "for_loop lim (good @ bad # rest) initial = (s', Some e)"
    "stdout s' = stdout initial @ good @ [bad]" "pyplot s' = pyplot initial" by blast
  then show ?thesis by (simp add: script_def assms(1) initial_def)
qed

lemma script_no_block:
  "fft_block lines = Inl e \<Longrightarrow>
   script lim lines = (\<lparr>stdout = [], bins = [], real = [], imag = [], pyplot = []\<rparr>, Some e)"
  by (simp add: script_def initial_def)

lemmas eval_defs = data_line_def numeric_token_def lacks_token_def delimited_def slice_def
  py_int_def int_literal_def skip_sign_def skip_prefix_def digits_part_def isspace_def digit_value_def magnitude_def parse_line_def
  bin_field_def real_field_def imag_field_def

section \<open>Writing and reading numbers\<close>

declare to_digits.simps [simp del]

lemma small_cases:
  "d < (16::nat) \<Longrightarrow> d = 0 \<or> d = 1 \<or> d = 2 \<or> d = 3 \<or> d = 4 \<or> d = 5 \<or> d = 6 \<or> d = 7 \<or> d = 8
     \<or> d = 9 \<or> d = 10 \<or> d = 11 \<or> d = 12 \<or> d = 13 \<or> d = 14 \<or> d = 15"
  by arith

lemma digit_char_plain: "d < 16 \<Longrightarrow> plain_digit (digit_char d)"
  by (drule small_cases) (elim disjE; simp add: digit_char_def plain_digit_def)

lemma digit_value_digit_char: "d < 16 \<Longrightarrow> digit_value (digit_char d) = d"
  by (drule small_cases) (elim disjE; simp add: digit_char_def digit_value_def)

lemma to_digits_chars:
  assumes "2 \<le> base" and "base \<le> 16"
  shows "list_all plain_digit (to_digits base n)"
  using assms
proof (induction base n rule: to_digits.induct)
  case (1 base n)
  show ?case
  proof (cases "n < base")
    case True
    with "1.prems" have "n < 16" by simp
    from digit_char_plain [OF this] True show ?thesis
      by (subst to_digits.simps) simp
  next
    case False
    from "1.prems" have "n mod base < base" by simp
    with "1.prems" have "n mod base < 16" by linarith
    from digit_char_plain [OF this] have d: "plain_digit (digit_char (n mod base))" .
    from False "1.prems" have "list_all plain_digit (to_digits base (n div base))"
      by (intro "1.IH") simp_all
    with d False "1.prems" show ?thesis
      by (subst to_digits.simps) simp
  qed
qed

lemma to_digits_nonempty: "to_digits base n \<noteq> []"
  by (subst to_digits.simps) simp

lemma magnitude_snoc: "magnitude base (ds @ [d]) = magnitude base ds * int base + int d"
  by (simp add: magnitude_def)

lemma magnitude_to_digits:
  assumes "2 \<le> base" and "base \<le> 16"
  shows "magnitude base (map digit_value (to_digits base n)) = int n"
  using assms
proof (induction base n rule: to_digits.induct)
  case (1 base n)
  show ?case
  proof (cases "n < base")
    case True
    with "1.prems" have "n < 16" by simp
    from digit_value_digit_char [OF this] True show ?thesis
      by (subst to_digits.simps) (simp add: magnitude_def)
  next
    case False
    from "1.prems" have "n mod base < base" by simp
    with "1.prems" have m: "n mod base < 16" by linarith
    from False "1.prems" have ih: "magnitude base (map digit_value (to_digits base (n div base)))
        = int (n div base)" by (intro "1.IH") simp_all
    have "int (n div base) * int base + int (n mod base) = int n"
      by (metis of_nat_add of_nat_mult div_mult_mod_eq)
    with ih digit_value_digit_char [OF m] False "1.prems" show ?thesis
      by (subst to_digits.simps) (simp add: magnitude_snoc)
  qed
qed

lemma plain_digit_cases:
  "plain_digit c \<Longrightarrow> c = CHR ''0'' \<or> c = CHR ''1'' \<or> c = CHR ''2'' \<or> c = CHR ''3''
     \<or> c = CHR ''4'' \<or> c = CHR ''5'' \<or> c = CHR ''6'' \<or> c = CHR ''7'' \<or> c = CHR ''8''
     \<or> c = CHR ''9'' \<or> c = CHR ''a'' \<or> c = CHR ''b'' \<or> c = CHR ''c'' \<or> c = CHR ''d''
     \<or> c = CHR ''e'' \<or> c = CHR ''f''"
  by (simp add: plain_digit_def)

lemma plain_digit_other:
  "plain_digit c \<Longrightarrow> c \<notin> set ''xX_+- ]RIB=['' \<and> \<not> isspace c \<and> digit_value c < 16"
  by (drule plain_digit_cases) (elim disjE; simp add: isspace_def digit_value_def)

lemma to_digits_values:
  assumes "2 \<le> base" and "base \<le> 16"
  shows "list_all (\<lambda>c. digit_value c < base) (to_digits base n)"
  using assms
proof (induction base n rule: to_digits.induct)
  case (1 base n)
  show ?case
  proof (cases "n < base")
    case True
    with "1.prems" have "n < 16" by simp
    from digit_value_digit_char [OF this] True show ?thesis
      by (subst to_digits.simps) simp
  next
    case False
    from "1.prems" have b: "n mod base < base" by simp
    with "1.prems" have "n mod base < 16" by linarith
    from digit_value_digit_char [OF this] b
    have d: "digit_value (digit_char (n mod base)) < base" by simp
    from False "1.prems" have "list_all (\<lambda>c. digit_value c < base) (to_digits base (n div base))"
      by (intro "1.IH") simp_all
    with d False "1.prems" show ?thesis
      by (subst to_digits.simps) simp
  qed
qed

lemma scan_plain:
  assumes "list_all plain_digit ds" and "list_all (\<lambda>c. digit_value c < base) ds"
    and "ds \<noteq> [] \<or> prev \<noteq> CHR ''_''"
  shows "scan base prev ds = Some (map digit_value ds, [])"
  using assms
proof (induction ds arbitrary: prev)
  case Nil
  then show ?case by simp
next
  case (Cons c cs)
  from Cons.prems(1) have c: "c \<noteq> CHR ''_''" using plain_digit_other [of c] by auto
  then have "cs \<noteq> [] \<or> c \<noteq> CHR ''_''" by simp
  with Cons have "scan base c cs = Some (map digit_value cs, [])" by simp
  with c Cons.prems(2) show ?case by simp
qed

lemma scan_values: "scan base prev s = Some (ds, rest) \<Longrightarrow> list_all (\<lambda>d. d < base) ds"
proof (induction base prev s arbitrary: ds rest rule: scan.induct)
  case (1 base prev)
  then show ?case by (simp split: if_splits)
next
  case (2 base prev c cs)
  show ?case
  proof (cases "c = CHR ''_''")
    case True
    with "2.prems" "2.IH"(1) show ?thesis by (auto split: if_splits)
  next
    case False
    show ?thesis
    proof (cases "digit_value c < base")
      case True
      with False "2.prems" obtain ds' where "scan base c cs = Some (ds', rest)"
        and "ds = digit_value c # ds'" by (auto split: option.splits)
      with "2.IH"(2) [OF False True] True show ?thesis by simp
    next
      case n: False
      with False "2.prems" show ?thesis by (auto split: if_splits)
    qed
  qed
qed

lemma digits_part_Some:
  assumes "digits_part base s = Some ds"
  shows "ds \<noteq> [] \<and> list_all (\<lambda>d. d < base) ds"
proof -
  from assms obtain rest where r: "scan base (CHR 0x00) s = Some (ds, rest)" and "ds \<noteq> []"
    by (auto simp: digits_part_def split: if_splits option.splits)
  with scan_values [OF r] show ?thesis by simp
qed

lemma int_literal_Some:
  assumes "int_literal base t = Some (neg, ds)"
  shows "ds \<noteq> [] \<and> list_all (\<lambda>d. d < base) ds"
proof -
  from assms have "digits_part base (skip_prefix base (skip_sign (dropWhile isspace t))) = Some ds"
    by (auto simp: int_literal_def Let_def split: option.splits)
  then show ?thesis by (rule digits_part_Some)
qed

lemma magnitude_bound:
  assumes "list_all (\<lambda>d. d < base) ds"
  shows "0 \<le> magnitude base ds \<and> magnitude base ds < int base ^ length ds"
  using assms
proof (induction ds rule: rev_induct)
  case Nil
  then show ?case by (simp add: magnitude_def)
next
  case (snoc d ds)
  then have ih: "0 \<le> magnitude base ds" "magnitude base ds + 1 \<le> int base ^ length ds"
    and d: "int d + 1 \<le> int base" by simp_all
  from ih(2) have "(magnitude base ds + 1) * int base \<le> int base ^ length ds * int base"
    by (rule mult_right_mono) simp
  then have "magnitude base ds * int base + int base \<le> int base ^ Suc (length ds)"
    by (simp add: algebra_simps)
  with d have "magnitude base ds * int base + int d < int base ^ Suc (length ds)"
    by linarith
  moreover from ih(1) have "0 \<le> magnitude base ds * int base + int d" by simp
  ultimately show ?case by (simp add: magnitude_snoc)
qed

lemma to_digits_length:
  assumes "2 \<le> base" and "n < base ^ k" and "0 < k"
  shows "length (to_digits base n) \<le> k"
  using assms
proof (induction base n arbitrary: k rule: to_digits.induct)
  case (1 base n)
  show ?case
  proof (cases "n < base")
    case True
    with "1.prems" show ?thesis by (subst to_digits.simps) simp
  next
    case False
    obtain j where k: "k = Suc j" using "1.prems"(3) by (cases k) auto
    have j: "0 < j"
    proof (rule ccontr)
      assume "\<not> 0 < j"
      with k "1.prems"(2) have "n < base" by simp
      with False show False ..
    qed
    from "1.prems"(2) k have "n < base * base ^ j" by simp
    then have "n div base < base ^ j"
      by (simp add: less_mult_imp_div_less mult.commute)
    with False "1.prems"(1) j have "length (to_digits base (n div base)) \<le> j"
      by (intro "1.IH") simp_all
    with False "1.prems"(1) k show ?thesis by (subst to_digits.simps) simp
  qed
qed

section \<open>Cutting tokens out of a line\<close>

lemma startswith_append: "startswith (p @ r) p"
  by (induction p) auto

lemma str_index_skip:
  assumes "sub \<noteq> []" and "hd sub \<notin> set p"
  shows "str_index (p @ sub @ r) sub = Inr (length p)"
  using assms(2)
proof (induction p)
  case Nil
  from assms(1) obtain x xs where sub: "sub = x # xs" by (cases sub) auto
  have "startswith (sub @ r) sub" by (rule startswith_append)
  then show ?case by (simp add: sub)
next
  case (Cons c p)
  from assms(1) obtain x xs where sub: "sub = x # xs" by (cases sub) auto
  with Cons.prems have "c \<noteq> x" by auto
  then have "\<not> startswith (c # p @ sub @ r) sub" by (simp add: sub)
  moreover from Cons have "str_index (p @ sub @ r) sub = Inr (length p)" by simp
  ultimately show ?case by simp
qed

lemma delimited_found:
  assumes "key \<noteq> []" and "hd key \<notin> set p" and "close \<noteq> []" and "hd close \<notin> set t"
    and "w = length key"
  shows "delimited key w close (p @ key @ t @ close @ r) = Inr t"
proof -
  let ?l = "p @ key @ t @ close @ r"
  have i: "str_index ?l key = Inr (length p)"
    using assms(1,2) by (rule str_index_skip)
  have d: "drop (length p + w) ?l = t @ close @ r" by (simp add: assms(5))
  have j: "str_index (t @ close @ r) close = Inr (length t)"
    using assms(3,4) by (rule str_index_skip)
  have s: "slice ?l (length p + w) (length p + w + length t) = t"
    by (simp add: slice_def assms(5))
  show ?thesis
    by (simp only: delimited_def Let_def i d j s sum.case)
qed

lemma digits_part_plain:
  assumes "list_all plain_digit ds" and "list_all (\<lambda>c. digit_value c < base) ds" and "ds \<noteq> []"
  shows "digits_part base ds = Some (map digit_value ds)"
proof -
  from assms(3) obtain c cs where ds: "ds = c # cs" by (cases ds) auto
  with assms(1) have "c \<noteq> CHR ''_''" using plain_digit_other [of c] by auto
  then have u: "\<not> startswith ds ''_''" by (simp add: ds)
  from assms have "scan base (CHR 0x00) ds = Some (map digit_value ds, [])"
    by (intro scan_plain) simp_all
  with u assms(3) show ?thesis by (simp add: digits_part_def)
qed

lemma plain_head:
  assumes "list_all plain_digit ds" and "ds \<noteq> []"
  shows "dropWhile isspace ds = ds \<and> skip_sign ds = ds \<and> \<not> startswith ds ''-''
           \<and> \<not> startswith ds ''_''"
proof -
  from assms(2) obtain c cs where ds: "ds = c # cs" by (cases ds) auto
  with assms(1) have "plain_digit c" by simp
  from plain_digit_other [OF this] show ?thesis by (simp add: ds skip_sign_def)
qed

lemma int_literal_dec:
  assumes "list_all plain_digit ds" and "list_all (\<lambda>c. digit_value c < 10) ds" and "ds \<noteq> []"
  shows "int_literal 10 ds = Some (False, map digit_value ds)"
    and "int_literal 10 (CHR ''-'' # ds) = Some (True, map digit_value ds)"
proof -
  note h = plain_head [OF assms(1,3)]
  note d = digits_part_plain [OF assms]
  show "int_literal 10 ds = Some (False, map digit_value ds)"
    by (simp add: int_literal_def h skip_prefix_def d)
  have "dropWhile isspace (CHR ''-'' # ds) = CHR ''-'' # ds" by (simp add: isspace_def)
  moreover have "skip_sign (CHR ''-'' # ds) = ds" by (simp add: skip_sign_def)
  ultimately show "int_literal 10 (CHR ''-'' # ds) = Some (True, map digit_value ds)"
    by (simp add: int_literal_def skip_prefix_def d)
qed

lemma int_literal_hex:
  assumes "list_all plain_digit ds" and "list_all (\<lambda>c. digit_value c < 16) ds" and "ds \<noteq> []"
  shows "int_literal 16 (''0x'' @ ds) = Some (False, map digit_value ds)"
    and "int_literal 16 (''-0x'' @ ds) = Some (True, map digit_value ds)"
proof -
  note h = plain_head [OF assms(1,3)]
  note d = digits_part_plain [OF assms]
  have p: "skip_prefix 16 (''0x'' @ ds) = ds" by (simp add: skip_prefix_def h)
  have "dropWhile isspace (''0x'' @ ds) = ''0x'' @ ds" by (simp add: isspace_def)
  moreover have "skip_sign (''0x'' @ ds) = ''0x'' @ ds" by (simp add: skip_sign_def)
  moreover have "\<not> startswith (''0x'' @ ds) ''-''" by simp
  ultimately show "int_literal 16 (''0x'' @ ds) = Some (False, map digit_value ds)"
    by (simp add: int_literal_def p d del: append.simps)
  have "dropWhile isspace (''-0x'' @ ds) = ''-0x'' @ ds" by (simp add: isspace_def)
  moreover have "skip_sign (''-0x'' @ ds) = ''0x'' @ ds" by (simp add: skip_sign_def)
  moreover have "startswith (''-0x'' @ ds) ''-''" by simp
  ultimately show "int_literal 16 (''-0x'' @ ds) = Some (True, map digit_value ds)"
    by (simp add: int_literal_def p d del: append.simps)
qed

lemma py_int_py_hex: "py_int lim (py_hex n) 16 = Inr n"
proof -
  let ?ds = "to_digits 16 (nat \<bar>n\<bar>)"
  have p: "list_all plain_digit ?ds" by (rule to_digits_chars) simp_all
  have v: "list_all (\<lambda>c. digit_value c < 16) ?ds" by (rule to_digits_values) simp_all
  have e: "?ds \<noteq> []" by (rule to_digits_nonempty)
  have m: "magnitude 16 (map digit_value ?ds) = \<bar>n\<bar>"
    using magnitude_to_digits [of 16 "nat \<bar>n\<bar>"] by simp
  show ?thesis
  proof (cases "n < 0")
    case True
    then have "py_hex n = ''-0x'' @ ?ds" by (simp add: py_hex_def)
    with int_literal_hex(2) [OF p v e] m True show ?thesis
      by (simp add: py_int_def)
  next
    case False
    then have "py_hex n = ''0x'' @ ?ds" by (simp add: py_hex_def)
    with int_literal_hex(1) [OF p v e] m False show ?thesis
      by (simp add: py_int_def)
  qed
qed

lemma py_int_py_str:
  "py_int lim (py_str n) 10 =
     (if 640 < length (to_digits 10 (nat \<bar>n\<bar>)) \<and> 0 < lim
         \<and> lim < length (to_digits 10 (nat \<bar>n\<bar>))
      then Inl (ValueError IntLiteral) else Inr n)"
proof -
  let ?ds = "to_digits 10 (nat \<bar>n\<bar>)"
  have p: "list_all plain_digit ?ds" by (rule to_digits_chars) simp_all
  have v: "list_all (\<lambda>c. digit_value c < 10) ?ds" by (rule to_digits_values) simp_all
  have e: "?ds \<noteq> []" by (rule to_digits_nonempty)
  have m: "magnitude 10 (map digit_value ?ds) = \<bar>n\<bar>"
    using magnitude_to_digits [of 10 "nat \<bar>n\<bar>"] by simp
  show ?thesis
  proof (cases "n < 0")
    case True
    then have "py_str n = CHR ''-'' # ?ds" by (simp add: py_str_def)
    with int_literal_dec(2) [OF p v e] m True show ?thesis
      by (simp add: py_int_def)
  next
    case False
    then have "py_str n = ?ds" by (simp add: py_str_def)
    with int_literal_dec(1) [OF p v e] m False show ?thesis
      by (simp add: py_int_def)
  qed
qed

lemma py_int_Inr:
  assumes "py_int lim t base = Inr n"
  shows "\<exists>neg ds. int_literal base t = Some (neg, ds)
           \<and> n = (if neg then - magnitude base ds else magnitude base ds)
           \<and> (base = 10 \<longrightarrow> \<not> (640 < length ds \<and> 0 < lim \<and> lim < length ds))"
proof (cases "int_literal base t")
  case None
  with assms show ?thesis by (simp add: py_int_def)
next
  case (Some p)
  obtain neg ds where p: "p = (neg, ds)" by (cases p)
  let ?c = "base \<notin> set [2, 4, 8, 16, 32] \<and> 640 < length ds \<and> 0 < lim \<and> lim < length ds"
  have eq: "py_int lim t base =
      (if ?c then Inl (ValueError IntLiteral)
       else Inr (if neg then - magnitude base ds else magnitude base ds))"
    by (simp only: py_int_def Some p option.case prod.case)
  have nc: "\<not> ?c"
  proof
    assume c: ?c
    from eq have "py_int lim t base = Inl (ValueError IntLiteral)" unfolding if_P [OF c] .
    with assms show False by simp
  qed
  from eq have "py_int lim t base = Inr (if neg then - magnitude base ds else magnitude base ds)"
    unfolding if_not_P [OF nc] .
  with assms have n: "n = (if neg then - magnitude base ds else magnitude base ds)" by simp
  have "base = 10 \<longrightarrow> \<not> (640 < length ds \<and> 0 < lim \<and> lim < length ds)"
  proof
    assume "base = 10"
    with nc show "\<not> (640 < length ds \<and> 0 < lim \<and> lim < length ds)" by simp
  qed
  with Some p n show ?thesis by blast
qed

lemma py_str_again:
  assumes "py_int lim t 10 = Inr n"
  shows "py_int lim (py_str n) 10 = Inr n"
proof -
  from py_int_Inr [OF assms] obtain neg ds where lit: "int_literal 10 t = Some (neg, ds)"
    and n: "n = (if neg then - magnitude 10 ds else magnitude 10 ds)"
    and ok: "\<not> (640 < length ds \<and> 0 < lim \<and> lim < length ds)" by auto
  from int_literal_Some [OF lit] have ne: "ds \<noteq> []" and v: "list_all (\<lambda>d. d < 10) ds"
    by simp_all
  from magnitude_bound [OF v] n have "\<bar>n\<bar> < int 10 ^ length ds" by (auto split: if_splits)
  then have "\<bar>n\<bar> < int (10 ^ length ds)" by simp
  then have "nat \<bar>n\<bar> < 10 ^ length ds" by (simp add: nat_less_iff)
  moreover from ne have "0 < length ds" by simp
  ultimately have "length (to_digits 10 (nat \<bar>n\<bar>)) \<le> length ds"
    by (intro to_digits_length) simp_all
  with ok have "\<not> (640 < length (to_digits 10 (nat \<bar>n\<bar>)) \<and> 0 < lim
      \<and> lim < length (to_digits 10 (nat \<bar>n\<bar>)))" by linarith
  then show ?thesis unfolding py_int_py_str by (rule if_not_P)
qed

lemma plain_list_free:
  assumes "list_all plain_digit ds"
  shows "set ds \<inter> set '']RIB '' = {}"
proof -
  have "c \<notin> set '']RIB ''" if "c \<in> set ds" for c
  proof -
    from that assms have "plain_digit c" by (simp add: list_all_iff)
    from plain_digit_other [OF this] show ?thesis by simp
  qed
  then show ?thesis by blast
qed

lemma py_str_free: "set (py_str n) \<inter> set '']RIB '' = {}"
proof -
  have "list_all plain_digit (to_digits 10 (nat \<bar>n\<bar>))" by (rule to_digits_chars) simp_all
  from plain_list_free [OF this] show ?thesis
    by (cases "n < 0") (simp_all add: py_str_def)
qed

lemma py_hex_free: "set (py_hex n) \<inter> set '']RIB '' = {}"
proof -
  have "list_all plain_digit (to_digits 16 (nat \<bar>n\<bar>))" by (rule to_digits_chars) simp_all
  from plain_list_free [OF this] show ?thesis
    by (cases "n < 0") (simp_all add: py_hex_def)
qed

lemma serialize_tokens:
  "delimited ''Bin['' 4 '']'' (serialize (b, r, i)) = Inr (py_str b)"
  "delimited ''Real='' 5 '' '' (serialize (b, r, i)) = Inr (py_hex r)"
  "delimited ''Imag='' 5 '' '' (serialize (b, r, i)) = Inr (py_hex i)"
proof -
  note f = py_str_free [of b] py_hex_free [of r] py_hex_free [of i]
  have "delimited ''Bin['' 4 '']'' ([] @ ''Bin['' @ py_str b @ '']''
          @ ('' Real='' @ py_hex r @ '' Imag='' @ py_hex i @ '' '')) = Inr (py_str b)"
    using f by (intro delimited_found) auto
  then show "delimited ''Bin['' 4 '']'' (serialize (b, r, i)) = Inr (py_str b)"
    by (simp add: serialize_def)
  have "delimited ''Real='' 5 '' '' ((''Bin['' @ py_str b @ ''] '') @ ''Real='' @ py_hex r @ '' ''
          @ (''Imag='' @ py_hex i @ '' '')) = Inr (py_hex r)"
    using f by (intro delimited_found) auto
  then show "delimited ''Real='' 5 '' '' (serialize (b, r, i)) = Inr (py_hex r)"
    by (simp add: serialize_def)
  have "delimited ''Imag='' 5 '' '' ((''Bin['' @ py_str b @ ''] Real='' @ py_hex r @ '' '')
          @ ''Imag='' @ py_hex i @ '' '' @ []) = Inr (py_hex i)"
    using f by (intro delimited_found) auto
  then show "delimited ''Imag='' 5 '' '' (serialize (b, r, i)) = Inr (py_hex i)"
    by (simp add: serialize_def)
qed


lemma bin_field_Inr:
  "bin_field lim l = Inr b \<Longrightarrow> \<exists>t. delimited ''Bin['' 4 '']'' l = Inr t \<and> py_int lim t 10 = Inr b"
  by (auto simp: bin_field_def split: sum.splits)

lemma parse_line_fields:
  "parse_line lim l = Inr (b, r, i) \<longleftrightarrow>
     bin_field lim l = Inr b \<and> real_field lim l = Inr r \<and> imag_field lim l = Inr i"
  by (auto simp: parse_line_def split: sum.splits)

lemma serialize_parse:
  assumes "py_int lim (py_str b) 10 = Inr b"
  shows "parse_line lim (serialize (b, r, i)) = Inr (b, r, i)"
  by (simp add: parse_line_def bin_field_def real_field_def imag_field_def serialize_tokens
        py_int_py_hex assms)


lemma parsed_bin:
  assumes "parse_line lim l = Inr (b, r, i)"
  shows "py_int lim (py_str b) 10 = Inr b"
proof -
  from assms have "bin_field lim l = Inr b" by (simp add: parse_line_fields)
  from bin_field_Inr [OF this] obtain t where "py_int lim t 10 = Inr b" by blast
  then show ?thesis by (rule py_str_again)
qed

lemma int_literal_sign:
  "int_literal base t = Some (neg, ds) \<Longrightarrow> neg = startswith (dropWhile isspace t) ''-''"
  by (auto simp: int_literal_def Let_def split: option.splits)

lemma unsigned_token:
  assumes "py_int lim t base = Inr n" and "\<not> startswith (dropWhile isspace t) ''-''"
  shows "(\<exists>ds. int_literal base t = Some (False, ds) \<and> n = magnitude base ds) \<and> 0 \<le> n"
proof -
  from py_int_Inr [OF assms(1)] obtain neg ds where lit: "int_literal base t = Some (neg, ds)"
    and n: "n = (if neg then - magnitude base ds else magnitude base ds)" by blast
  from int_literal_sign [OF lit] assms(2) have neg: "\<not> neg" by simp
  from int_literal_Some [OF lit] have "list_all (\<lambda>d. d < base) ds" by simp
  from magnitude_bound [OF this] have "0 \<le> magnitude base ds" by simp
  with lit n neg show ?thesis by simp
qed

lemma real_field_Inr:
  "real_field lim l = Inr r \<Longrightarrow> delimited ''Real='' 5 '' '' l = Inr t \<Longrightarrow> py_int lim t 16 = Inr r"
  by (simp add: real_field_def)

lemma imag_field_Inr:
  "imag_field lim l = Inr i \<Longrightarrow> delimited ''Imag='' 5 '' '' l = Inr t \<Longrightarrow> py_int lim t 16 = Inr i"
  by (simp add: imag_field_def)

text \<open>What a lookup in a line says about the line.\<close>

lemma str_index_occurs: "\<exists>k. str_index (p @ sub @ r) sub = Inr k \<and> k \<le> length p"
proof (induction p)
  case Nil
  have s: "startswith (sub @ r) sub" by (rule startswith_append)
  show ?case
  proof (cases "sub @ r")
    case Nil
    then show ?thesis by simp
  next
    case (Cons c cs)
    with s show ?thesis by simp
  qed
next
  case (Cons c p)
  then obtain k where "str_index (p @ sub @ r) sub = Inr k" "k \<le> length p" by blast
  then show ?case by simp
qed

lemma str_index_missing:
  assumes "str_index s sub = Inl e"
  shows "e = ValueError StrIndex \<and> (\<forall>p r. s \<noteq> p @ sub @ r)"
proof -
  have "s \<noteq> p @ sub @ r" for p r
  proof
    assume "s = p @ sub @ r"
    with str_index_occurs [of p sub r] assms show False by auto
  qed
  with str_index_Inl [OF assms] show ?thesis by simp
qed

lemma startswith_iff: "startswith s sub \<longleftrightarrow> (\<exists>r. s = sub @ r)"
proof (induction s sub rule: startswith.induct)
  case (1 s)
  show ?case by simp
next
  case (2 p ps)
  show ?case by simp
next
  case (3 c cs p ps)
  then show ?case by auto
qed

lemma str_index_found:
  assumes "str_index s sub = Inr k"
  shows "k \<le> length s \<and> (\<exists>r. drop k s = sub @ r) \<and> (\<forall>j<k. \<not> startswith (drop j s) sub)"
  using assms
proof (induction s arbitrary: k)
  case Nil
  then show ?case by (simp split: if_splits)
next
  case (Cons c cs)
  show ?case
  proof (cases "startswith (c # cs) sub")
    case True
    with Cons.prems have "k = 0" by simp
    with True show ?thesis by (simp add: startswith_iff)
  next
    case False
    with Cons.prems obtain j where j: "str_index cs sub = Inr j" "k = Suc j"
      by (auto split: sum.splits)
    from Cons.IH [OF j(1)] have ih: "j \<le> length cs" "\<exists>r. drop j cs = sub @ r"
      "\<forall>i<j. \<not> startswith (drop i cs) sub" by simp_all
    have "\<not> startswith (drop i (c # cs)) sub" if "i < k" for i
    proof (cases i)
      case 0
      with False show ?thesis by simp
    next
      case (Suc i')
      with that j(2) ih(3) show ?thesis by simp
    qed
    with ih j(2) show ?thesis by simp
  qed
qed

section \<open>The claims\<close>

text \<open>
  C5: when no line of the file is the header line, the lookup of the header fails with
  the not-found error, and the run ends with nothing printed, no list filled and no call
  to pyplot.
\<close>

theorem header_absent:
  assumes "HEADER \<notin> set lines"
  shows "\<exists>e. NotFoundError e \<and> list_index lines HEADER = Inl e
           \<and> script lim lines
               = (\<lparr>stdout = [], bins = [], real = [], imag = [], pyplot = []\<rparr>, Some e)"
  using assms
  by (simp add: NotFoundError_def list_index_absent script_no_block fft_block_no_header)

theorem header_absent_witness:
  "HEADER \<notin> set (readlines ''FFT done\<newline>Bin[0] Real=0x1 Imag=0x2 \<newline>\<newline>'')
   \<and> (\<exists>e. NotFoundError e
          \<and> list_index (readlines ''FFT done\<newline>Bin[0] Real=0x1 Imag=0x2 \<newline>\<newline>'') HEADER = Inl e
          \<and> script 4300 (readlines ''FFT done\<newline>Bin[0] Real=0x1 Imag=0x2 \<newline>\<newline>'')
               = (\<lparr>stdout = [], bins = [], real = [], imag = [], pyplot = []\<rparr>, Some e))"
proof -
  have h: "HEADER \<notin> set (readlines ''FFT done\<newline>Bin[0] Real=0x1 Imag=0x2 \<newline>\<newline>'')"
    by (simp add: HEADER_def readlines_def)
  from h header_absent [OF h, of 4300] show ?thesis by (rule conjI)
qed

text \<open>
  C4: when the header line is there and no line after it is the blank line, the
  extraction of the section fails with the not-found error, and the run ends with nothing
  printed, no list filled and no call to pyplot.
\<close>

theorem blank_absent:
  assumes "HEADER \<notin> set pre" and "''\<newline>'' \<notin> set rest"
  shows "\<exists>e. NotFoundError e \<and> fft_block (pre @ HEADER # rest) = Inl e
           \<and> script lim (pre @ HEADER # rest)
               = (\<lparr>stdout = [], bins = [], real = [], imag = [], pyplot = []\<rparr>, Some e)"
  using fft_block_no_blank [OF assms]
  by (simp add: NotFoundError_def script_no_block)

theorem blank_absent_witness:
  "HEADER \<notin> set [''\<newline>'']
   \<and> ''\<newline>'' \<notin> set [''Bin[0] Real=0x1 Imag=0x2 \<newline>'', ''Bin[1] Real=0x3 Imag=0x4 '']
   \<and> (\<exists>e. NotFoundError e
          \<and> fft_block ([''\<newline>''] @ HEADER
                # [''Bin[0] Real=0x1 Imag=0x2 \<newline>'', ''Bin[1] Real=0x3 Imag=0x4 '']) = Inl e
          \<and> script 4300 ([''\<newline>''] @ HEADER
                # [''Bin[0] Real=0x1 Imag=0x2 \<newline>'', ''Bin[1] Real=0x3 Imag=0x4 ''])
               = (\<lparr>stdout = [], bins = [], real = [], imag = [], pyplot = []\<rparr>, Some e))"
proof -
  have h: "HEADER \<notin> set [''\<newline>'']" by (simp add: HEADER_def)
  have b: "''\<newline>'' \<notin> set [''Bin[0] Real=0x1 Imag=0x2 \<newline>'', ''Bin[1] Real=0x3 Imag=0x4 '']"
    by simp
  from h b blank_absent [OF h b, of 4300] show ?thesis by blast
qed

text \<open>
  C7: when the blank line comes directly after the header line, the run raises nothing,
  prints nothing, leaves the three lists empty, and makes the four calls to pyplot with
  two empty series.
\<close>

theorem empty_block:
  assumes "HEADER \<notin> set pre"
  shows "script lim (pre @ HEADER # ''\<newline>'' # post)
           = (\<lparr>stdout = [], bins = [], real = [], imag = [],
               pyplot = [Plot [] [] ''Real'', Plot [] [] ''Imag'', Legend, Show]\<rparr>, None)"
proof -
  have "fft_block (pre @ HEADER # [] @ ''\<newline>'' # post) = Inr []"
    using assms by (intro fft_block_found) simp_all
  then have "fft_block (pre @ HEADER # ''\<newline>'' # post) = Inr []" by simp
  from script_ok [OF this, of lim "[]"] show ?thesis by (simp add: chart_def)
qed

theorem empty_block_witness:
  "HEADER \<notin> set [''boot\<newline>'', ''\<newline>'']
   \<and> script 4300 ([''boot\<newline>'', ''\<newline>''] @ HEADER # ''\<newline>'' # [''Bin[0] Real=1 Imag=2 \<newline>''])
       = (\<lparr>stdout = [], bins = [], real = [], imag = [],
           pyplot = [Plot [] [] ''Real'', Plot [] [] ''Imag'', Legend, Show]\<rparr>, None)"
proof -
  have h: "HEADER \<notin> set [''boot\<newline>'', ''\<newline>'']" by (simp add: HEADER_def)
  from h empty_block [OF h, of 4300 "[''Bin[0] Real=1 Imag=2 \<newline>'']"] show ?thesis by (rule conjI)
qed

text \<open>
  C1: for a file made of lines without the header, the header line, \<open>N\<close> data lines, the
  blank line and any further lines, the run raises nothing, the line parser gives one
  sample for each data line, there are exactly \<open>N\<close> samples, and the three lists handed
  to pyplot hold the fields of the samples in the order of the data lines.
\<close>

theorem well_formed_file:
  assumes "HEADER \<notin> set pre" and "\<forall>l\<in>set block. data_line lim l"
  shows "\<exists>samples. length samples = length block
           \<and> map (parse_line lim) block = map Inr samples
           \<and> script lim (pre @ HEADER # block @ ''\<newline>'' # post)
               = (\<lparr>stdout = block, bins = map fst samples,
                   real = map (fst \<circ> snd) samples, imag = map (snd \<circ> snd) samples,
                   pyplot = chart (map fst samples) (map (fst \<circ> snd) samples)
                              (map (snd \<circ> snd) samples)\<rparr>, None)"
proof -
  from assms(2) obtain samples where s: "map (parse_line lim) block = map Inr samples"
    by (auto simp: data_lines_samples)
  then have n: "length samples = length block" by (metis length_map)
  from assms(2) have "''\<newline>'' \<notin> set block" using data_line_not_blank by blast
  from fft_block_found [OF assms(1) this]
  have "fft_block (pre @ HEADER # block @ ''\<newline>'' # post) = Inr block" .
  from script_ok [OF this s] n s show ?thesis by blast
qed

theorem well_formed_file_witness:
  "HEADER \<notin> set [''run 1\<newline>'']
   \<and> data_line 4300 ''Bin[0] Real=0x0000000A Imag=0xFFFFFFF6 \<newline>''
   \<and> data_line 4300 ''Bin[1] Real=0x00000014 Imag=0xFFFFFFEC \<newline>''
   \<and> (\<exists>samples. length samples = 2
        \<and> map (parse_line 4300) [''Bin[0] Real=0x0000000A Imag=0xFFFFFFF6 \<newline>'',
              ''Bin[1] Real=0x00000014 Imag=0xFFFFFFEC \<newline>''] = map Inr samples
        \<and> script 4300 ([''run 1\<newline>''] @ HEADER
              # [''Bin[0] Real=0x0000000A Imag=0xFFFFFFF6 \<newline>'',
                 ''Bin[1] Real=0x00000014 Imag=0xFFFFFFEC \<newline>''] @ ''\<newline>'' # [''done''])
            = (\<lparr>stdout = [''Bin[0] Real=0x0000000A Imag=0xFFFFFFF6 \<newline>'',
                           ''Bin[1] Real=0x00000014 Imag=0xFFFFFFEC \<newline>''],
                bins = map fst samples, real = map (fst \<circ> snd) samples,
                imag = map (snd \<circ> snd) samples,
                pyplot = chart (map fst samples) (map (fst \<circ> snd) samples)
                           (map (snd \<circ> snd) samples)\<rparr>, None))"
proof -
  let ?l0 = "''Bin[0] Real=0x0000000A Imag=0xFFFFFFF6 \<newline>''"
  let ?l1 = "''Bin[1] Real=0x00000014 Imag=0xFFFFFFEC \<newline>''"
  have h: "HEADER \<notin> set [''run 1\<newline>'']" by (simp add: HEADER_def)
  have d0: "data_line 4300 ?l0" by (simp add: eval_defs)
  have d1: "data_line 4300 ?l1" by (simp add: eval_defs)
  from d0 d1 have d: "\<forall>l\<in>set [?l0, ?l1]. data_line 4300 l" by simp
  from well_formed_file [OF h d, of "[''done'']"] h d0 d1 show ?thesis
    by (simp add: numeral_2_eq_2)
qed

text \<open>
  C9: when the run raises nothing, the three lists \<open>bins\<close>, \<open>real\<close> and \<open>imag\<close> that
  reach the two plot calls have the same length, the number of lines of the section.
\<close>

theorem equal_lengths:
  assumes "script lim lines = (s, None)"
  shows "\<exists>block. fft_block lines = Inr block
           \<and> length (bins s) = length block \<and> length (real s) = length block
           \<and> length (imag s) = length block
           \<and> pyplot s = [Plot (bins s) (real s) ''Real'', Plot (bins s) (imag s) ''Imag'',
                          Legend, Show]"
proof -
  from assms obtain block where b: "fft_block lines = Inr block"
    by (auto simp: script_def split: sum.splits)
  with assms obtain s0 where l: "for_loop lim block initial = (s0, None)"
    by (auto simp: script_def split: prod.splits option.splits)
  from for_loop_None [OF l] obtain samples where
    m: "map (parse_line lim) block = map Inr samples" ..
  then have n: "length samples = length block" by (metis length_map)
  from script_ok [OF b m] assms n b show ?thesis by (auto simp: chart_def)
qed

theorem equal_lengths_witness:
  "script 4300 (readlines ''Capturing FFT output (frequency domain):\<newline>Bin[7] Real=ff Imag=-0x10 \<newline>\<newline>'')
     = (\<lparr>stdout = [''Bin[7] Real=ff Imag=-0x10 \<newline>''], bins = [7], real = [255], imag = [-16],
         pyplot = [Plot [7] [255] ''Real'', Plot [7] [-16] ''Imag'', Legend, Show]\<rparr>, None)
   \<and> (\<exists>block. fft_block (readlines ''Capturing FFT output (frequency domain):\<newline>Bin[7] Real=ff Imag=-0x10 \<newline>\<newline>'') = Inr block
        \<and> length [7::int] = length block \<and> length [255::int] = length block
        \<and> length [-16::int] = length block)"
proof -
  let ?lines = "readlines ''Capturing FFT output (frequency domain):\<newline>Bin[7] Real=ff Imag=-0x10 \<newline>\<newline>''"
  let ?s = "\<lparr>stdout = [''Bin[7] Real=ff Imag=-0x10 \<newline>''], bins = [7], real = [255], imag = [-16],
         pyplot = [Plot [7] [255] ''Real'', Plot [7] [-16] ''Imag'', Legend, Show]\<rparr>"
  have r: "script 4300 ?lines = (?s, None)"
    by (simp add: readlines_def script_def fft_block_def HEADER_def initial_def loop_body_def Let_def eval_defs)
  from equal_lengths [OF r] r show ?thesis by simp
qed

text \<open>
  C6: the header is found by equality of whole lines. The position the lookup returns
  holds exactly the header line; and a line that has anything between the header text
  and its newline, such as a trailing blank, is not the header, so a file whose other
  lines are not the header either ends with the not-found error.
\<close>

theorem header_exact:
  "(list_index lines HEADER = Inr k \<longrightarrow> k < length lines \<and> lines ! k = HEADER)
   \<and> (w \<noteq> [] \<and> HEADER \<notin> set pre \<and> HEADER \<notin> set post \<longrightarrow>
        (\<exists>e. NotFoundError e
           \<and> script lim (pre @ (''Capturing FFT output (frequency domain):'' @ w @ ''\<newline>'') # post)
               = (\<lparr>stdout = [], bins = [], real = [], imag = [], pyplot = []\<rparr>, Some e)))"
proof (intro conjI impI)
  assume "list_index lines HEADER = Inr k"
  from list_index_Inr [OF this] show "k < length lines" and "lines ! k = HEADER" by simp_all
next
  assume a: "w \<noteq> [] \<and> HEADER \<notin> set pre \<and> HEADER \<notin> set post"
  let ?l = "''Capturing FFT output (frequency domain):'' @ w @ ''\<newline>''"
  let ?t = "''Capturing FFT output (frequency domain):''"
  have eq: "HEADER = ?t @ ''\<newline>''"
    by (simp add: HEADER_def)
  have "?t @ ''\<newline>'' \<noteq> ?t @ w @ ''\<newline>''"
  proof
    assume "?t @ ''\<newline>'' = ?t @ w @ ''\<newline>''"
    then have "''\<newline>'' = w @ ''\<newline>''" by (rule same_append_eq [THEN iffD1])
    then have "w = []" by (simp only: self_append_conv2)
    with a show False by simp
  qed
  then have "HEADER \<noteq> ?l" unfolding eq .
  with a have "HEADER \<notin> set (pre @ ?l # post)" by simp
  then have "fft_block (pre @ ?l # post) = Inl (ValueError ListIndex)"
    by (rule fft_block_no_header)
  then show "\<exists>e. NotFoundError e \<and> script lim (pre @ ?l # post)
               = (\<lparr>stdout = [], bins = [], real = [], imag = [], pyplot = []\<rparr>, Some e)"
    by (simp add: script_no_block NotFoundError_def)
qed

theorem header_exact_witness:
  "list_index [''log\<newline>'', HEADER, ''\<newline>''] HEADER = Inr 1
   \<and> (1::nat) < length [''log\<newline>'', HEADER, ''\<newline>''] \<and> [''log\<newline>'', HEADER, ''\<newline>''] ! 1 = HEADER
   \<and> '' '' \<noteq> [] \<and> HEADER \<notin> set [''log\<newline>''] \<and> HEADER \<notin> set [''Bin[0] Real=1 Imag=2 \<newline>'', ''\<newline>'']
   \<and> (\<exists>e. NotFoundError e
         \<and> script 4300 ([''log\<newline>''] @ (''Capturing FFT output (frequency domain):'' @ '' '' @ ''\<newline>'')
               # [''Bin[0] Real=1 Imag=2 \<newline>'', ''\<newline>''])
             = (\<lparr>stdout = [], bins = [], real = [], imag = [], pyplot = []\<rparr>, Some e))"
proof -
  have i: "list_index [''log\<newline>'', HEADER, ''\<newline>''] HEADER = Inr 1" by (simp add: HEADER_def)
  have p: "'' '' \<noteq> [] \<and> HEADER \<notin> set [''log\<newline>'']
             \<and> HEADER \<notin> set [''Bin[0] Real=1 Imag=2 \<newline>'', ''\<newline>'']"
    by (simp add: HEADER_def)
  from header_exact [of "[''log\<newline>'', HEADER, ''\<newline>'']" 1 "'' ''" "[''log\<newline>'']"
      "[''Bin[0] Real=1 Imag=2 \<newline>'', ''\<newline>'']" 4300] i p
  show ?thesis by blast
qed

lemma plot_needs_data_lines:
  assumes "script lim input = (s, r)" and "pyplot s \<noteq> []"
  shows "r = None \<and> (\<exists>sect. fft_block input = Inr sect
           \<and> (\<forall>l\<in>set sect. data_line lim l))"
proof (cases "fft_block input")
  case (Inl e)
  from script_no_block [OF this, of lim] assms show ?thesis by simp
next
  case (Inr sect)
  show ?thesis
  proof (cases "\<forall>l\<in>set sect. data_line lim l")
    case True
    then obtain samples where "map (parse_line lim) sect = map Inr samples"
      by (auto simp: data_lines_samples)
    from script_ok [OF Inr this] assms(1) have "r = None" by simp
    with True Inr show ?thesis by simp
  next
    case False
    then obtain j where j: "j < length sect" "\<not> data_line lim (sect ! j)"
      by (auto simp: in_set_conv_nth)
    from first_bad_line [of j sect "data_line lim", OF j] obtain good bad rest where
      split: "sect = good @ bad # rest" and good: "\<forall>l\<in>set good. data_line lim l"
      and bad: "\<not> data_line lim bad" by blast
    from not_data_line [OF bad] obtain e where e: "parse_line lim bad = Inl e" ..
    from Inr split have "fft_block input = Inr (good @ bad # rest)" by simp
    from script_fail [OF this good e] obtain s' where
      "script lim input = (s', Some e)" "pyplot s' = []" by blast
    with assms show ?thesis by simp
  qed
qed

text \<open>
  C2, as the code has it: when a line of the section lacks one of the keys or the closing
  character after it, the run stops with a format error at the first line of the section
  that is not a data line, which is that line or an earlier one, and it is that line when
  all lines before it are data lines; the lines up to the failing one are printed, and no
  call to pyplot is made. And for every file whatever, a run that makes a call to pyplot
  has raised nothing, has found the section, and every line of the section is a data
  line.
\<close>

theorem missing_token_fails:
  "(fft_block lines = Inr block \<and> j < length block \<and> lacks_token (block ! j) \<longrightarrow>
      (\<exists>k e s. k \<le> j \<and> (\<forall>i<k. data_line lim (block ! i)) \<and> \<not> data_line lim (block ! k)
         \<and> ((\<forall>i<j. data_line lim (block ! i)) \<longrightarrow> k = j)
         \<and> script lim lines = (s, Some e) \<and> FormatError e
         \<and> stdout s = take (Suc k) block \<and> pyplot s = []))
   \<and> (\<forall>input s r. script lim input = (s, r) \<and> pyplot s \<noteq> [] \<longrightarrow>
         r = None \<and> (\<exists>sect. fft_block input = Inr sect
                        \<and> (\<forall>l\<in>set sect. data_line lim l)))"
proof (rule conjI)
  show "fft_block lines = Inr block \<and> j < length block \<and> lacks_token (block ! j) \<longrightarrow>
      (\<exists>k e s. k \<le> j \<and> (\<forall>i<k. data_line lim (block ! i)) \<and> \<not> data_line lim (block ! k)
         \<and> ((\<forall>i<j. data_line lim (block ! i)) \<longrightarrow> k = j)
         \<and> script lim lines = (s, Some e) \<and> FormatError e
         \<and> stdout s = take (Suc k) block \<and> pyplot s = [])"
  proof
  assume a: "fft_block lines = Inr block \<and> j < length block \<and> lacks_token (block ! j)"
  then have blk: "fft_block lines = Inr block" and jl: "j < length block"
    and lack: "lacks_token (block ! j)" by simp_all
  from lacks_token_not_data_line [OF lack] have nj: "\<not> data_line lim (block ! j)" .
  from first_bad_line [of j block "data_line lim", OF jl nj]
  obtain k good bad rest where split: "block = good @ bad # rest" and k: "k = length good"
    and kj: "k \<le> j" and good: "\<forall>l\<in>set good. data_line lim l" and bad: "\<not> data_line lim bad"
    and first: "(\<forall>i<j. data_line lim (block ! i)) \<longrightarrow> k = j" by blast
  from not_data_line [OF bad] obtain e where e: "parse_line lim bad = Inl e" ..
  from blk split have "fft_block lines = Inr (good @ bad # rest)" by simp
  from script_fail [OF this good e] obtain s where
    s: "script lim lines = (s, Some e)" "stdout s = good @ [bad]" "pyplot s = []" by blast
  have before: "\<forall>i<k. data_line lim (block ! i)"
    using good split k by (simp add: nth_append)
  have at: "\<not> data_line lim (block ! k)" using bad split k by simp
  have "take (Suc k) block = good @ [bad]" using split k by simp
  with s kj before at first parse_line_Inl [OF e]
  show "\<exists>k e s. k \<le> j \<and> (\<forall>i<k. data_line lim (block ! i)) \<and> \<not> data_line lim (block ! k)
            \<and> ((\<forall>i<j. data_line lim (block ! i)) \<longrightarrow> k = j)
            \<and> script lim lines = (s, Some e) \<and> FormatError e
            \<and> stdout s = take (Suc k) block \<and> pyplot s = []"
    by metis
  qed
  show "\<forall>input s r. script lim input = (s, r) \<and> pyplot s \<noteq> [] \<longrightarrow>
         r = None \<and> (\<exists>sect. fft_block input = Inr sect
                        \<and> (\<forall>l\<in>set sect. data_line lim l))"
  proof (intro allI impI)
    fix input s r
    assume "script lim input = (s, r) \<and> pyplot s \<noteq> []"
    then have "script lim input = (s, r)" and "pyplot s \<noteq> []" by simp_all
    then show "r = None \<and> (\<exists>sect. fft_block input = Inr sect
                        \<and> (\<forall>l\<in>set sect. data_line lim l))"
      by (rule plot_needs_data_lines)
  qed
qed

theorem missing_token_fails_witness:
  "fft_block [HEADER, ''Bin[0] Real=0x1 Imag=0x2 \<newline>'', ''Bin[1] Real=0x3 \<newline>'',
              ''Bin[2] Real=0x5 Imag=0x6 \<newline>'', ''\<newline>'']
     = Inr [''Bin[0] Real=0x1 Imag=0x2 \<newline>'', ''Bin[1] Real=0x3 \<newline>'',
            ''Bin[2] Real=0x5 Imag=0x6 \<newline>'']
   \<and> (1::nat) < length [''Bin[0] Real=0x1 Imag=0x2 \<newline>'', ''Bin[1] Real=0x3 \<newline>'',
                         ''Bin[2] Real=0x5 Imag=0x6 \<newline>'']
   \<and> lacks_token ([''Bin[0] Real=0x1 Imag=0x2 \<newline>'', ''Bin[1] Real=0x3 \<newline>'',
                     ''Bin[2] Real=0x5 Imag=0x6 \<newline>''] ! 1)
   \<and> data_line 4300 ''Bin[0] Real=0x1 Imag=0x2 \<newline>''
   \<and> (\<exists>e s. script 4300 [HEADER, ''Bin[0] Real=0x1 Imag=0x2 \<newline>'', ''Bin[1] Real=0x3 \<newline>'',
                              ''Bin[2] Real=0x5 Imag=0x6 \<newline>'', ''\<newline>''] = (s, Some e)
          \<and> FormatError e
          \<and> stdout s = [''Bin[0] Real=0x1 Imag=0x2 \<newline>'', ''Bin[1] Real=0x3 \<newline>'']
          \<and> pyplot s = [])
   \<and> script 4300 [HEADER, ''Bin[4] Real=0x7 Imag=0x8 \<newline>'', ''\<newline>'']
       = (\<lparr>stdout = [''Bin[4] Real=0x7 Imag=0x8 \<newline>''], bins = [4], real = [7], imag = [8],
           pyplot = [Plot [4] [7] ''Real'', Plot [4] [8] ''Imag'', Legend, Show]\<rparr>, None)
   \<and> [Plot [4] [7] ''Real'', Plot [4] [8] ''Imag'', Legend, Show] \<noteq> []
   \<and> fft_block [HEADER, ''Bin[4] Real=0x7 Imag=0x8 \<newline>'', ''\<newline>'']
       = Inr [''Bin[4] Real=0x7 Imag=0x8 \<newline>'']
   \<and> data_line 4300 ''Bin[4] Real=0x7 Imag=0x8 \<newline>''"
proof -
  let ?a = "''Bin[0] Real=0x1 Imag=0x2 \<newline>''"
  let ?b = "''Bin[1] Real=0x3 \<newline>''"
  let ?c = "''Bin[2] Real=0x5 Imag=0x6 \<newline>''"
  let ?g = "''Bin[4] Real=0x7 Imag=0x8 \<newline>''"
  let ?s = "\<lparr>stdout = [?g], bins = [4], real = [7], imag = [8],
           pyplot = [Plot [4] [7] ''Real'', Plot [4] [8] ''Imag'', Legend, Show]\<rparr>"
  note inst = missing_token_fails [of "[HEADER, ?a, ?b, ?c, ''\<newline>'']" "[?a, ?b, ?c]" 1 4300]
  have b: "fft_block [HEADER, ?a, ?b, ?c, ''\<newline>''] = Inr [?a, ?b, ?c]"
    by (simp add: fft_block_def HEADER_def slice_def)
  have j: "(1::nat) < length [?a, ?b, ?c]" by simp
  have t: "lacks_token ([?a, ?b, ?c] ! 1)" by (simp add: eval_defs)
  have d: "data_line 4300 ?a" by (simp add: eval_defs)
  then have "\<forall>i<1. data_line 4300 ([?a, ?b, ?c] ! i)" by simp
  with inst [THEN conjunct1] b j t obtain e s where
    run: "script 4300 [HEADER, ?a, ?b, ?c, ''\<newline>''] = (s, Some e)" "FormatError e"
    "stdout s = take (Suc 1) [?a, ?b, ?c]" "pyplot s = []" by metis
  have g: "script 4300 [HEADER, ?g, ''\<newline>''] = (?s, None)"
    by (simp add: script_def fft_block_def HEADER_def initial_def loop_body_def Let_def eval_defs)
  have p: "pyplot ?s \<noteq> []" by simp
  have fb: "fft_block [HEADER, ?g, ''\<newline>''] = Inr [?g]"
    by (simp add: fft_block_def HEADER_def slice_def)
  from inst [THEN conjunct2] g p
  have "\<exists>sect. fft_block [HEADER, ?g, ''\<newline>''] = Inr sect
          \<and> (\<forall>l\<in>set sect. data_line 4300 l)" by blast
  with fb have dg: "data_line 4300 ?g" by simp
  from run have "\<exists>e s. script 4300 [HEADER, ?a, ?b, ?c, ''\<newline>''] = (s, Some e)
          \<and> FormatError e \<and> stdout s = [?a, ?b] \<and> pyplot s = []" by auto
  with b j t d g fb dg show ?thesis by simp
qed

theorem missing_token_counterexample:
  "fft_block (readlines ''Capturing FFT output (frequency domain):\<newline>Bin[x] Real=1 Imag=2 \<newline>oops\<newline>\<newline>'')
     = Inr [''Bin[x] Real=1 Imag=2 \<newline>'', ''oops\<newline>'']
   \<and> lacks_token ([''Bin[x] Real=1 Imag=2 \<newline>'', ''oops\<newline>''] ! 1)
   \<and> script 4300 (readlines ''Capturing FFT output (frequency domain):\<newline>Bin[x] Real=1 Imag=2 \<newline>oops\<newline>\<newline>'')
     = (\<lparr>stdout = [''Bin[x] Real=1 Imag=2 \<newline>''], bins = [], real = [], imag = [],
         pyplot = []\<rparr>, Some (ValueError IntLiteral))
   \<and> [''Bin[x] Real=1 Imag=2 \<newline>'']
       \<noteq> take (Suc 1) [''Bin[x] Real=1 Imag=2 \<newline>'', ''oops\<newline>'']"
  by (simp add: readlines_def script_def fft_block_def HEADER_def initial_def loop_body_def Let_def eval_defs)

text \<open>
  C8: a sample that the line parser gave for some line, written back with \<open>bin\<close> in
  decimal between \<^verbatim>\<open>Bin[\<close> and \<^verbatim>\<open>]\<close> and with \<open>real\<close> and \<open>imag\<close> in hexadecimal
  between their keys and a blank, is parsed to the same sample again.
\<close>

theorem round_trip:
  assumes "parse_line lim l = Inr (b, r, i)"
  shows "parse_line lim (serialize (b, r, i)) = Inr (b, r, i)"
  using parsed_bin [OF assms] by (rule serialize_parse)

theorem round_trip_witness:
  "parse_line 4300 ''Bin[12] Real=0x0000000A Imag=-0xF6 \<newline>'' = Inr (12, 10, - 246)
   \<and> serialize (12, 10, - 246) = ''Bin[12] Real=0xa Imag=-0xf6 ''
   \<and> parse_line 4300 (serialize (12, 10, - 246)) = Inr (12, 10, - 246)"
proof -
  have p: "parse_line 4300 ''Bin[12] Real=0x0000000A Imag=-0xF6 \<newline>'' = Inr (12, 10, - 246)"
    by (simp add: eval_defs)
  have s: "serialize (12, 10, - 246) = ''Bin[12] Real=0xa Imag=-0xf6 ''"
    by (simp add: serialize_def py_str_def py_hex_def to_digits.simps digit_char_def)
  from p s round_trip [OF p] show ?thesis by simp
qed



text \<open>
  C3: when neither hexadecimal token of a data line has a minus sign in front, \<open>real\<close> and
  \<open>imag\<close> are the values of the digits of their tokens weighted by powers of 16: not
  negative, and not reduced to any width. For the two lines of the scenario of the
  specification the run gives \<open>bins = [0, 1]\<close>, \<open>real = [10, 20]\<close> and
  \<open>imag = [4294967286, 4294967276]\<close>.
\<close>

theorem hex_unsigned:
  assumes "parse_line lim l = Inr (b, r, i)"
    and "delimited ''Real='' 5 '' '' l = Inr tr" and "delimited ''Imag='' 5 '' '' l = Inr ti"
    and "\<not> startswith (dropWhile isspace tr) ''-''"
    and "\<not> startswith (dropWhile isspace ti) ''-''"
  shows "(\<exists>ds. int_literal 16 tr = Some (False, ds) \<and> r = magnitude 16 ds) \<and> 0 \<le> r
         \<and> (\<exists>ds. int_literal 16 ti = Some (False, ds) \<and> i = magnitude 16 ds) \<and> 0 \<le> i
         \<and> script lim [HEADER, ''Bin[0] Real=0x0000000A Imag=0xFFFFFFF6 \<newline>'',
                         ''Bin[1] Real=0x00000014 Imag=0xFFFFFFEC \<newline>'', ''\<newline>'']
             = (\<lparr>stdout = [''Bin[0] Real=0x0000000A Imag=0xFFFFFFF6 \<newline>'',
                            ''Bin[1] Real=0x00000014 Imag=0xFFFFFFEC \<newline>''],
                 bins = [0, 1], real = [10, 20], imag = [4294967286, 4294967276],
                 pyplot = [Plot [0, 1] [10, 20] ''Real'',
                           Plot [0, 1] [4294967286, 4294967276] ''Imag'', Legend, Show]\<rparr>, None)"
proof -
  from assms(1) have f: "real_field lim l = Inr r" "imag_field lim l = Inr i"
    by (simp_all add: parse_line_fields)
  from unsigned_token [OF real_field_Inr [OF f(1) assms(2)] assms(4)]
  have r: "(\<exists>ds. int_literal 16 tr = Some (False, ds) \<and> r = magnitude 16 ds) \<and> 0 \<le> r" .
  from unsigned_token [OF imag_field_Inr [OF f(2) assms(3)] assms(5)]
  have i: "(\<exists>ds. int_literal 16 ti = Some (False, ds) \<and> i = magnitude 16 ds) \<and> 0 \<le> i" .
  have s: "script lim [HEADER, ''Bin[0] Real=0x0000000A Imag=0xFFFFFFF6 \<newline>'',
                         ''Bin[1] Real=0x00000014 Imag=0xFFFFFFEC \<newline>'', ''\<newline>'']
             = (\<lparr>stdout = [''Bin[0] Real=0x0000000A Imag=0xFFFFFFF6 \<newline>'',
                            ''Bin[1] Real=0x00000014 Imag=0xFFFFFFEC \<newline>''],
                 bins = [0, 1], real = [10, 20], imag = [4294967286, 4294967276],
                 pyplot = [Plot [0, 1] [10, 20] ''Real'',
                           Plot [0, 1] [4294967286, 4294967276] ''Imag'', Legend, Show]\<rparr>, None)"
    by (simp add: script_def fft_block_def HEADER_def initial_def loop_body_def Let_def eval_defs)
  from r i s show ?thesis by (simp only:)
qed

theorem hex_unsigned_witness:
  "parse_line 4300 ''Bin[0] Real=0x0000000A Imag=0xFFFFFFF6 \<newline>'' = Inr (0, 10, 4294967286)
   \<and> delimited ''Real='' 5 '' '' ''Bin[0] Real=0x0000000A Imag=0xFFFFFFF6 \<newline>'' = Inr ''0x0000000A''
   \<and> delimited ''Imag='' 5 '' '' ''Bin[0] Real=0x0000000A Imag=0xFFFFFFF6 \<newline>'' = Inr ''0xFFFFFFF6''
   \<and> \<not> startswith (dropWhile isspace ''0x0000000A'') ''-''
   \<and> \<not> startswith (dropWhile isspace ''0xFFFFFFF6'') ''-''
   \<and> (\<exists>ds. int_literal 16 ''0xFFFFFFF6'' = Some (False, ds) \<and> 4294967286 = magnitude 16 ds)
   \<and> (0::int) \<le> 4294967286"
proof -
  let ?l = "''Bin[0] Real=0x0000000A Imag=0xFFFFFFF6 \<newline>''"
  have p: "parse_line 4300 ?l = Inr (0, 10, 4294967286)" by (simp add: eval_defs)
  have tr: "delimited ''Real='' 5 '' '' ?l = Inr ''0x0000000A''" by (simp add: eval_defs)
  have ti: "delimited ''Imag='' 5 '' '' ?l = Inr ''0xFFFFFFF6''" by (simp add: eval_defs)
  have nr: "\<not> startswith (dropWhile isspace ''0x0000000A'') ''-''" by (simp add: isspace_def)
  have ni: "\<not> startswith (dropWhile isspace ''0xFFFFFFF6'') ''-''" by (simp add: isspace_def)
  from hex_unsigned [OF p tr ti nr ni] p tr ti nr ni show ?thesis by blast
qed

end
